theory Spec2Isabelle
  imports Main "HOL-Library.Multiset" "HOL-Library.Sublist"
begin

section \<open>The quote extension (sphinxext/quote.py)\<close>

text \<open>
  The module registers two directives (\<^verbatim>\<open>quote\<close>, \<^verbatim>\<open>quotes\<close>) and three
  callbacks (\<^verbatim>\<open>process_quotes\<close>, \<^verbatim>\<open>process_quote_nodes\<close>, \<^verbatim>\<open>purge_quotes\<close>).
  The embedding below follows the module function by function, as Python 3
  runs it. What belongs to Python or docutils and is only called by the
  module (string methods, list indexing, \<^verbatim>\<open>random.sample\<close>, the document tree)
  is modelled by its documented behaviour and carries the prefix \<^verbatim>\<open>py_\<close> or
  the library's name.
\<close>

subsection \<open>Exceptions\<close>

datatype error = ValueError | NotImplementedError | NameError

subsection \<open>Python strings\<close>

text \<open>
  Option values are text. A character is a \<^typ>\<open>char\<close>; \<^verbatim>\<open>str.isspace\<close> is given
  for the code points below 256: tab to carriage return, the four separators
  0x1C..0x1F, space, NEL and the no-break space.
\<close>

definition isspace :: "char \<Rightarrow> bool" where
  "isspace c = (c \<in> set [CHR 0x09, CHR 0x0A, CHR 0x0B, CHR 0x0C, CHR 0x0D,
                          CHR 0x1C, CHR 0x1D, CHR 0x1E, CHR 0x1F, CHR 0x20,
                          CHR 0x85, CHR 0xA0])"

text \<open>\<^verbatim>\<open>s.strip()\<close>: leading and trailing whitespace removed.\<close>

definition py_strip :: "string \<Rightarrow> string" where
  "py_strip s = rev (dropWhile isspace (rev (dropWhile isspace s)))"

text \<open>
  \<^verbatim>\<open>s.split(sep)\<close> for a one-character separator: the text up to the first
  separator, then the split of what follows it; a string without separator
  (the empty string too) is its own single component.
\<close>

function py_split :: "char \<Rightarrow> string \<Rightarrow> string list" where
  "py_split sep s =
     takeWhile (\<lambda>c. c \<noteq> sep) s #
       (case dropWhile (\<lambda>c. c \<noteq> sep) s of
          [] \<Rightarrow> []
        | _ # rest \<Rightarrow> py_split sep rest)"
  by pat_completeness auto
termination
proof (relation "measure (\<lambda>(sep, s). length s)")
  show "wf (measure (\<lambda>(sep, s). length s))" by simp
next
  fix sep :: char and s x21 x22
  assume "dropWhile (\<lambda>c. c \<noteq> sep) s = x21 # x22"
  then have "length (x21 # x22) \<le> length s"
    using length_dropWhile_le [of "\<lambda>c. c \<noteq> sep" s] by simp
  then show "((sep, x22), (sep, s)) \<in> measure (\<lambda>(sep, s). length s)" by simp
qed

declare py_split.simps [simp del]

text \<open>\<^verbatim>\<open>sep.join(xs)\<close>.\<close>

fun py_join :: "string \<Rightarrow> string list \<Rightarrow> string" where
  "py_join sep [] = []"
| "py_join sep [x] = x"
| "py_join sep (x # y # ys) = x @ sep @ py_join sep (y # ys)"

text \<open>\<^verbatim>\<open>'%s' % n\<close> for a non-negative integer: its decimal digits.\<close>

fun py_str :: "nat \<Rightarrow> string" where
  "py_str n = (if n < 10 then [char_of (48 + n)]
               else py_str (n div 10) @ [char_of (48 + n mod 10)])"

declare py_str.simps [simp del]

text \<open>
  \<^verbatim>\<open>xs[i]\<close> on a list: a negative index counts from the end; an index out of
  range raises IndexError, here \<^const>\<open>None\<close>.
\<close>

definition py_getitem :: "'a list \<Rightarrow> int \<Rightarrow> 'a option" where
  "py_getitem xs i =
     (if 0 \<le> i \<and> i < int (length xs) then Some (xs ! nat i)
      else if i < 0 \<and> - i \<le> int (length xs) then Some (xs ! nat (int (length xs) + i))
      else None)"

subsection \<open>Option dictionaries\<close>

text \<open>
  \<^verbatim>\<open>self.options\<close> / \<^verbatim>\<open>node.options\<close> is a dict. The keys are those the module
  reads or writes; docutils admits only the keys of a directive's
  \<^verbatim>\<open>option_spec\<close> and converts the values (\<^verbatim>\<open>directives.unchanged\<close> gives a
  string, \<^verbatim>\<open>directives.positive_int\<close> an integer). A key that is absent is
  \<^const>\<open>None\<close>. The value under \<^verbatim>\<open>tags\<close> changes its type when \<^verbatim>\<open>_prep_tags\<close>
  runs, so it is the record's type parameter:
  \<^item> \<^typ>\<open>string option\<close> as the directive receives it (absent, or the text);
  \<^item> \<^typ>\<open>string set\<close> in a quote entry (\<^verbatim>\<open>Quote.run\<close> always normalises);
  \<^item> \<^typ>\<open>string set option\<close> in a selector (\<^verbatim>\<open>Quotes.run\<close> normalises only a
    key that is there).
\<close>

record 't options =
  author :: "string option"
  affiliation :: "string option"
  date :: "string option"
  group :: "string option"
  tags :: 't
  source :: "string option"
  random :: "int option"
  sections :: "string option"

subsection \<open>Document tree\<close>

text \<open>
  docutils nodes, as far as the module builds or inspects them. \<open>Element\<close> is any
  other element (tag name, classes, children): \<^verbatim>\<open>block_quote\<close>, \<^verbatim>\<open>paragraph\<close>,
  \<^verbatim>\<open>attribution\<close>, \<^verbatim>\<open>inline\<close>, \<^verbatim>\<open>section\<close> and so on. \<open>Target\<close> is \<^verbatim>\<open>nodes.target\<close>
  with its ids and classes. \<open>quote_node\<close> and \<open>quotes\<close> are the module's own two classes; a
  \<open>quote_node\<close> carries \<^verbatim>\<open>node.line\<close>, \<^verbatim>\<open>node.options\<close> and its children.
\<close>

datatype node =
    Text string
  | Element string "string list" "node list"
  | Target "string list" "string list"
  | quotes "string set option options"
  | Body quote_node
and quote_node =
    quote_node (line: "int option") (options: "string set options") (children: "node list")

datatype doctree = document "node list"

text \<open>A registry record (the dict appended at lines 140-145) and the environment.\<close>

record entry =
  docname :: string
  lineno :: "int option"
  quote :: quote_node
  target :: "node option"

record env =
  env_docname :: string
  quote_all_quotes :: "entry list option"

subsection \<open>\<^verbatim>\<open>_prep_tags\<close> (lines 59-63)\<close>

text \<open>
  \<^verbatim>\<open>options['tags'] = set(x.strip() for x in options.get('tags', '').split(','))\<close>.
  The dict is updated in place; every other key keeps its value.
\<close>

definition prep_tags :: "string option options \<Rightarrow> string set options" where
  "prep_tags opts =
     \<lparr>author = author opts, affiliation = affiliation opts, date = date opts,
      group = group opts,
      tags = set (map py_strip
                   (py_split (CHR '','') (case tags opts of None \<Rightarrow> [] | Some s \<Rightarrow> s))),
      source = source opts, random = random opts, sections = sections opts\<rparr>"

subsection \<open>\<^verbatim>\<open>Quote.run\<close> (lines 82-120)\<close>

text \<open>
  The directive is given by its content lines, its line number \<open>ln\<close> and
  its options; \<open>serialno\<close> is the number the environment hands out for the anchor id
  (\<^verbatim>\<open>env.new_serialno('index')\<close>, or \<^verbatim>\<open>env.index_num\<close> on an old host).
  \<open>siglb\<close> is the list of \<^verbatim>\<open>inline\<close> children collected in the line block,
  which line 114 appends to the attribution after its own text \<^verbatim>\<open>--\<close>.
  A docutils text element gets a \<open>Text\<close> child only for a text that is not
  empty, so the paragraph of a directive without content has no child.
\<close>

definition siglb :: "'t options \<Rightarrow> node list" where
  "siglb opts =
     concat (map (\<lambda>(el, v). case v of None \<Rightarrow> []
                              | Some s \<Rightarrow> [Element ''inline'' [el] [Text (''  '' @ s)]])
        [(''author'', author opts), (''date'', date opts),
         (''affiliation'', affiliation opts), (''source'', source opts)])"

definition Quote_run ::
  "nat \<Rightarrow> int \<Rightarrow> string list \<Rightarrow> string option options \<Rightarrow> node list" where
  "Quote_run serialno ln content opts =
     (let anchor = Target [''index-'' @ py_str serialno] [''epigraph''];
          opts1 = opts\<lparr>date := map_option (\<lambda>d. ''['' @ d @ '']'') (date opts)\<rparr>;
          opts2 = opts1\<lparr>source := map_option (\<lambda>s. ''Source: '' @ s) (source opts1)\<rparr>;
          signode = Element ''attribution'' [] (Text ''--'' # siglb opts2);
          block = Element ''block_quote'' [''epigraph'']
                    [Element ''paragraph'' [''text'']
                       (if py_join [CHR 0x0A] content = [] then []
                        else [Text (py_join [CHR 0x0A] content)]),
                     signode]
      in [anchor, Body (quote_node (Some ln) (prep_tags opts2) [block])])"

subsection \<open>\<^verbatim>\<open>process_quotes\<close> (lines 124-145)\<close>

text \<open>
  Lines 134-139: the element before the node among its parent's children.
  \<open>i\<close> is the node's index in \<open>parent\<close> (\<^verbatim>\<open>node.parent.index(node)\<close>; docutils
  nodes compare by identity, so this is the position the traversal is at).
\<close>

fun is_target :: "node \<Rightarrow> bool" where
  "is_target (Target ids cls) = True"
| "is_target _ = False"

definition targetnode :: "node list \<Rightarrow> nat \<Rightarrow> node option" where
  "targetnode parent i =
     (case py_getitem parent (int i - 1) of
        None \<Rightarrow> None
      | Some t \<Rightarrow> if \<not> is_target t then None else Some t)"

text \<open>
  The loop over \<^verbatim>\<open>doctree.traverse(quote_node)\<close>: document order (a node, then
  its descendants, then its following siblings). The arguments are the
  document name, the children of the parent being walked, the index of the
  next child and the children from that index on.
\<close>

fun process_quotes_loop :: "string \<Rightarrow> node list \<Rightarrow> nat \<Rightarrow> node list \<Rightarrow> entry list" where
  "process_quotes_loop dn parent i [] = []"
| "process_quotes_loop dn parent i (Body (quote_node l opts ks) # rest) =
     \<lparr>docname = dn, lineno = l, quote = quote_node l opts ks, target = targetnode parent i\<rparr>
       # process_quotes_loop dn ks 0 ks @ process_quotes_loop dn parent (Suc i) rest"
| "process_quotes_loop dn parent i (Element t cls ks # rest) =
     process_quotes_loop dn ks 0 ks @ process_quotes_loop dn parent (Suc i) rest"
| "process_quotes_loop dn parent i (n # rest) =
     process_quotes_loop dn parent (Suc i) rest"

definition process_quotes :: "env \<Rightarrow> doctree \<Rightarrow> env" where
  "process_quotes e doctree =
     (let all_quotes = (case quote_all_quotes e of None \<Rightarrow> [] | Some qs \<Rightarrow> qs)
      in case doctree of document ks \<Rightarrow>
           e\<lparr>quote_all_quotes :=
               Some (all_quotes @ process_quotes_loop (env_docname e) ks 0 ks)\<rparr>)"

subsection \<open>\<^verbatim>\<open>Quotes.run\<close> (lines 164-173)\<close>

definition Quotes_run :: "string option options \<Rightarrow> node list" where
  "Quotes_run opts =
     [quotes \<lparr>author = author opts, affiliation = affiliation opts, date = date opts,
              group = group opts,
              tags = (if tags opts \<noteq> None then Some (tags (prep_tags opts)) else None),
              source = source opts, random = random opts, sections = sections opts\<rparr>]"

text \<open>
  \<^verbatim>\<open>Quotes.option_spec\<close> (lines 157-162): the options docutils lets through to
  \<^verbatim>\<open>Quotes.run\<close> are \<^verbatim>\<open>random\<close> (a positive integer), \<^verbatim>\<open>group\<close> and
  \<^verbatim>\<open>tags\<close>; the entry for \<^verbatim>\<open>sections\<close> is commented out.
\<close>

definition Quotes_option_spec :: "string option options \<Rightarrow> bool" where
  "Quotes_option_spec opts =
     (author opts = None \<and> affiliation opts = None \<and> date opts = None \<and>
      source opts = None \<and> sections opts = None \<and>
      (case random opts of None \<Rightarrow> True | Some k \<Rightarrow> 1 \<le> k))"

subsection \<open>\<^verbatim>\<open>random.sample\<close>\<close>

text \<open>
  The standard library's \<^verbatim>\<open>sample(population, k)\<close>: ValueError unless
  \<open>0 \<le> k \<le> n\<close>, before anything is drawn. Otherwise, for a population of at
  most 21 elements (more when \<open>k > 5\<close>), \<open>k\<close> times an index \<open>j\<close> below the
  number of elements not yet chosen is drawn, \<^verbatim>\<open>pool[j]\<close> is taken and the
  last element not yet chosen is moved into its place: this branch is what
  \<open>sample_loop\<close> embeds. The generator is a sequence \<open>draws\<close> of numbers and
  the count \<open>pos\<close> of those already used; the index drawn among \<open>m\<close>
  elements is \<open>draws pos mod m\<close>, so every index below \<open>m\<close> can come up.
  For a larger population the library instead records the chosen indexes in
  a set and draws again on a repeat; that branch is not embedded. The module
  reaches \<^verbatim>\<open>sample\<close> only with an empty population (see \<open>content_loop\<close>
  below), where the range check decides.
\<close>

fun sample_loop :: "(nat \<Rightarrow> nat) \<Rightarrow> nat \<Rightarrow> 'a list \<Rightarrow> nat \<Rightarrow> nat \<Rightarrow> 'a list" where
  "sample_loop draws pos pool m 0 = []"
| "sample_loop draws pos pool m (Suc r) =
     (let j = draws pos mod m
      in pool ! j # sample_loop draws (Suc pos) (pool[j := pool ! (m - 1)]) (m - 1) r)"

definition sample :: "(nat \<Rightarrow> nat) \<Rightarrow> nat \<Rightarrow> 'a list \<Rightarrow> int \<Rightarrow> error + ('a list \<times> nat)" where
  "sample draws pos population k =
     (let n = length population
      in if \<not> (0 \<le> k \<and> k \<le> int n) then Inl ValueError
         else Inr (sample_loop draws pos population n (nat k), pos + nat k))"

subsection \<open>\<^verbatim>\<open>process_quote_nodes\<close> (lines 177-241)\<close>

text \<open>
  Lines 194-205: the list of predicates built from the selector's options.
  \<^verbatim>\<open>set.issuperset(a, b)\<close> is \<open>b \<subseteq> a\<close>; \<^verbatim>\<open>quote.options.get('group', '')\<close> is the
  empty string for a quote without group.
\<close>

definition filters :: "string set option options \<Rightarrow> (quote_node \<Rightarrow> bool) list" where
  "filters loptions =
     (case tags loptions of
        None \<Rightarrow> []
      | Some ltags \<Rightarrow> [\<lambda>quote. ltags \<subseteq> tags (options quote)])
     @
     (case group loptions of
        None \<Rightarrow> []
      | Some g \<Rightarrow> [\<lambda>quote. (case group (options quote) of None \<Rightarrow> [] | Some x \<Rightarrow> x) = g])"

text \<open>
  Lines 207-215. The name \<^verbatim>\<open>reduce\<close> is looked up when line 209 runs. The
  module imports \<^verbatim>\<open>operator\<close> and \<^verbatim>\<open>random.sample\<close> only (lines 35-36) and
  defines no \<^verbatim>\<open>reduce\<close>, and Python 3 has no builtin of this name
  (\<^verbatim>\<open>functools.reduce\<close> is not imported): the lookup raises NameError. So
  \<open>reduce\<close> is an error, not a function. Python evaluates the callee of a call
  before its arguments, so the error comes before any predicate is applied.
  The loop body runs once per registry record; with an empty registry line
  209 is never reached.
\<close>

definition reduce :: "error + ((bool \<Rightarrow> bool \<Rightarrow> bool) \<Rightarrow> bool list \<Rightarrow> bool \<Rightarrow> bool)" where
  "reduce = Inl NameError"

fun content_loop ::
  "(quote_node \<Rightarrow> bool) list \<Rightarrow> entry list \<Rightarrow> error + quote_node list" where
  "content_loop fs [] = Inr []"
| "content_loop fs (quote_info # rest) =
     (let quote_entry = quote quote_info
      in case reduce of
           Inl err \<Rightarrow> Inl err
         | Inr r \<Rightarrow>
             if \<not> r (\<and>) (map (\<lambda>f. f quote_entry) fs) True
             then content_loop fs rest
             else (case content_loop fs rest of
                     Inl err \<Rightarrow> Inl err
                   | Inr content \<Rightarrow> Inr (quote_entry # content)))"

text \<open>Python truth of \<^verbatim>\<open>loptions.get(key, None)\<close> for an integer and for a string.\<close>

definition truthy_int :: "int option \<Rightarrow> bool" where
  "truthy_int v = (case v of None \<Rightarrow> False | Some k \<Rightarrow> k \<noteq> 0)"

definition truthy_str :: "string option \<Rightarrow> bool" where
  "truthy_str v = (case v of None \<Rightarrow> False | Some s \<Rightarrow> s \<noteq> [])"

text \<open>
  The body of the loop at line 188 for one \<open>quotes\<close> node: the list that
  replaces the node, and the generator's new position.
\<close>

definition process_quote_node ::
  "(nat \<Rightarrow> nat) \<Rightarrow> nat \<Rightarrow> entry list \<Rightarrow> string set option options
     \<Rightarrow> error + (quote_node list \<times> nat)" where
  "process_quote_node draws pos all_quotes loptions =
     (case content_loop (filters loptions) all_quotes of
        Inl err \<Rightarrow> Inl err
      | Inr content \<Rightarrow>
          (case (if truthy_int (random loptions)
                 then (case random loptions of
                         None \<Rightarrow> Inr (content, pos)
                       | Some k \<Rightarrow> sample draws pos content k)
                 else Inr (content, pos)) of
             Inl err \<Rightarrow> Inl err
           | Inr (content', pos') \<Rightarrow>
               if truthy_str (sections loptions) then Inl NotImplementedError
               else Inr (content', pos')))"

text \<open>
  The loop over \<^verbatim>\<open>doctree.traverse(quotes)\<close> with \<^verbatim>\<open>node.replace_self(content)\<close>:
  each \<open>quotes\<close> node, in document order, gives way to its content; the first
  exception ends the walk. (docutils also copies the selector's ids and
  classes to the first inserted node and gives an inserted node without line
  number the document's current line; neither is embedded.)
\<close>

fun process_quote_nodes_loop ::
  "(nat \<Rightarrow> nat) \<Rightarrow> entry list \<Rightarrow> nat \<Rightarrow> node list \<Rightarrow> error + (node list \<times> nat)" where
  "process_quote_nodes_loop draws qs pos [] = Inr ([], pos)"
| "process_quote_nodes_loop draws qs pos (quotes loptions # rest) =
     (case process_quote_node draws pos qs loptions of
        Inl err \<Rightarrow> Inl err
      | Inr (content, pos') \<Rightarrow>
          (case process_quote_nodes_loop draws qs pos' rest of
             Inl err \<Rightarrow> Inl err
           | Inr (rest', pos'') \<Rightarrow> Inr (map Body content @ rest', pos'')))"
| "process_quote_nodes_loop draws qs pos (Element t cls ks # rest) =
     (case process_quote_nodes_loop draws qs pos ks of
        Inl err \<Rightarrow> Inl err
      | Inr (ks', pos') \<Rightarrow>
          (case process_quote_nodes_loop draws qs pos' rest of
             Inl err \<Rightarrow> Inl err
           | Inr (rest', pos'') \<Rightarrow> Inr (Element t cls ks' # rest', pos'')))"
| "process_quote_nodes_loop draws qs pos (Body (quote_node l opts ks) # rest) =
     (case process_quote_nodes_loop draws qs pos ks of
        Inl err \<Rightarrow> Inl err
      | Inr (ks', pos') \<Rightarrow>
          (case process_quote_nodes_loop draws qs pos' rest of
             Inl err \<Rightarrow> Inl err
           | Inr (rest', pos'') \<Rightarrow> Inr (Body (quote_node l opts ks') # rest', pos'')))"
| "process_quote_nodes_loop draws qs pos (n # rest) =
     (case process_quote_nodes_loop draws qs pos rest of
        Inl err \<Rightarrow> Inl err
      | Inr (rest', pos') \<Rightarrow> Inr (n # rest', pos'))"

definition process_quote_nodes ::
  "(nat \<Rightarrow> nat) \<Rightarrow> nat \<Rightarrow> env \<Rightarrow> doctree \<Rightarrow> env \<times> (error + (doctree \<times> nat))" where
  "process_quote_nodes draws pos e doctree =
     (let all_quotes = (case quote_all_quotes e of None \<Rightarrow> [] | Some qs \<Rightarrow> qs)
      in (e\<lparr>quote_all_quotes := Some all_quotes\<rparr>,
          case doctree of document ks \<Rightarrow>
            (case process_quote_nodes_loop draws all_quotes pos ks of
               Inl err \<Rightarrow> Inl err
             | Inr (ks', pos') \<Rightarrow> Inr (document ks', pos'))))"

subsection \<open>\<^verbatim>\<open>purge_quotes\<close> (lines 245-250)\<close>

definition purge_quotes :: "env \<Rightarrow> string \<Rightarrow> env" where
  "purge_quotes e dn =
     (case quote_all_quotes e of
        None \<Rightarrow> e
      | Some qs \<Rightarrow> e\<lparr>quote_all_quotes := Some (filter (\<lambda>quote. docname quote \<noteq> dn) qs)\<rparr>)"

subsection \<open>Traversal\<close>

text \<open>
  \<^verbatim>\<open>doctree.traverse(quotes)\<close> and \<^verbatim>\<open>doctree.traverse(quote_node)\<close>: the
  selectors, and the quote entries, of a list of sibling nodes in document
  order.
\<close>

fun traverse_quotes :: "node list \<Rightarrow> string set option options list" where
  "traverse_quotes [] = []"
| "traverse_quotes (quotes loptions # rest) = loptions # traverse_quotes rest"
| "traverse_quotes (Element t cls ks # rest) = traverse_quotes ks @ traverse_quotes rest"
| "traverse_quotes (Body (quote_node l opts ks) # rest) =
     traverse_quotes ks @ traverse_quotes rest"
| "traverse_quotes (n # rest) = traverse_quotes rest"

fun traverse_quote_node :: "node list \<Rightarrow> quote_node list" where
  "traverse_quote_node [] = []"
| "traverse_quote_node (Body (quote_node l opts ks) # rest) =
     quote_node l opts ks # traverse_quote_node ks @ traverse_quote_node rest"
| "traverse_quote_node (Element t cls ks # rest) =
     traverse_quote_node ks @ traverse_quote_node rest"
| "traverse_quote_node (n # rest) = traverse_quote_node rest"

subsection \<open>Example data\<close>

text \<open>An options dict with no key set: \<open>t\<close> is what stands for \<^verbatim>\<open>tags\<close>.\<close>

definition no_options :: "'t \<Rightarrow> 't options" where
  "no_options t = \<lparr>author = None, affiliation = None, date = None, group = None,
      tags = t, source = None, random = None, sections = None\<rparr>"

section \<open>Properties\<close>

subsection \<open>The filter predicates\<close>






subsection \<open>Purging\<close>

text \<open>
  C4. \<^verbatim>\<open>purge_quotes\<close> leaves an environment without registry as it is.
  Otherwise only the registry changes: the new one is the old one without the
  records of the purged document, a subsequence of the old one (so the order
  of what remains is kept), holding exactly the records of other documents,
  and the records removed are exactly those of the purged document.
\<close>

theorem purge_quotes_exact:
  "(quote_all_quotes e = None \<longrightarrow> purge_quotes e dn = e) \<and>
   (\<forall>qs. quote_all_quotes e = Some qs \<longrightarrow>
      (\<exists>qs'. purge_quotes e dn = e\<lparr>quote_all_quotes := Some qs'\<rparr> \<and>
         qs' = filter (\<lambda>q. docname q \<noteq> dn) qs \<and>
         subseq qs' qs \<and>
         (\<forall>q. q \<in> set qs' \<longleftrightarrow> q \<in> set qs \<and> docname q \<noteq> dn) \<and>
         mset qs = mset qs' + mset (filter (\<lambda>q. docname q = dn) qs)))"
  by (auto simp: purge_quotes_def)

theorem purge_quotes_exact_witness:
  "purge_quotes \<lparr>env_docname = ''a'', quote_all_quotes = Some
     [\<lparr>docname = ''a'', lineno = Some 1, quote = quote_node (Some 1) (no_options {[]}) [], target = None\<rparr>,
      \<lparr>docname = ''b'', lineno = Some 2, quote = quote_node (Some 2) (no_options {[]}) [], target = None\<rparr>,
      \<lparr>docname = ''a'', lineno = Some 3, quote = quote_node (Some 3) (no_options {[]}) [], target = None\<rparr>]\<rparr> ''a''
   = \<lparr>env_docname = ''a'', quote_all_quotes = Some
     [\<lparr>docname = ''b'', lineno = Some 2, quote = quote_node (Some 2) (no_options {[]}) [], target = None\<rparr>]\<rparr>"
  using purge_quotes_exact [of "\<lparr>env_docname = ''a'', quote_all_quotes = Some
     [\<lparr>docname = ''a'', lineno = Some 1, quote = quote_node (Some 1) (no_options {[]}) [], target = None\<rparr>,
      \<lparr>docname = ''b'', lineno = Some 2, quote = quote_node (Some 2) (no_options {[]}) [], target = None\<rparr>,
      \<lparr>docname = ''a'', lineno = Some 3, quote = quote_node (Some 3) (no_options {[]}) [], target = None\<rparr>]\<rparr>" "''a''"]
  by simp

subsection \<open>Strings and tags\<close>

lemma py_split_Nil: "py_split sep [] = [[]]"
  by (simp add: py_split.simps)

lemma py_split_not_Nil: "py_split sep s \<noteq> []"
  by (subst py_split.simps) simp

lemma py_split_no_sep: "w \<in> set (py_split sep s) \<Longrightarrow> sep \<notin> set w"
proof (induction sep s rule: py_split.induct)
  case (1 sep s)
  show ?case
  proof (cases "dropWhile (\<lambda>c. c \<noteq> sep) s")
    case Nil
    with "1.prems" have "w = takeWhile (\<lambda>c. c \<noteq> sep) s"
      by (subst (asm) py_split.simps) simp
    then show ?thesis by (auto dest: set_takeWhileD)
  next
    case (Cons x rest)
    with "1.prems" have "w = takeWhile (\<lambda>c. c \<noteq> sep) s \<or> w \<in> set (py_split sep rest)"
      by (subst (asm) py_split.simps) simp
    then show ?thesis using "1.IH" [OF Cons] by (auto dest: set_takeWhileD)
  qed
qed

lemma py_join_Cons: "ys \<noteq> [] \<Longrightarrow> py_join sep (x # ys) = x @ sep @ py_join sep ys"
  by (cases ys) simp_all

lemma py_join_split: "py_join [sep] (py_split sep s) = s"
proof (induction sep s rule: py_split.induct)
  case (1 sep s)
  show ?case
  proof (cases "dropWhile (\<lambda>c. c \<noteq> sep) s")
    case Nil
    have "py_split sep s = [takeWhile (\<lambda>c. c \<noteq> sep) s]"
      by (subst py_split.simps, subst Nil) simp
    moreover have "takeWhile (\<lambda>c. c \<noteq> sep) s = s"
      using Nil takeWhile_dropWhile_id [of "\<lambda>c. c \<noteq> sep" s] by simp
    ultimately show ?thesis by simp
  next
    case (Cons x rest)
    then have x: "x = sep"
      using hd_dropWhile [of "\<lambda>c. c \<noteq> sep" s] by fastforce
    have split: "py_split sep s = takeWhile (\<lambda>c. c \<noteq> sep) s # py_split sep rest"
      using Cons by (subst py_split.simps) simp
    have "py_join [sep] (py_split sep s) =
            takeWhile (\<lambda>c. c \<noteq> sep) s @ [sep] @ py_join [sep] (py_split sep rest)"
      unfolding split by (rule py_join_Cons) (rule py_split_not_Nil)
    also have "\<dots> = takeWhile (\<lambda>c. c \<noteq> sep) s @ sep # rest"
      using "1.IH" [OF Cons] by simp
    also have "\<dots> = s"
      using Cons x takeWhile_dropWhile_id [of "\<lambda>c. c \<noteq> sep" s] by simp
    finally show ?thesis .
  qed
qed

lemma py_strip_decomp:
  "\<exists>pre post. s = pre @ py_strip s @ post \<and> (\<forall>c \<in> set pre. isspace c) \<and> (\<forall>c \<in> set post. isspace c)"
proof -
  let ?t = "dropWhile isspace s"
  have 1: "s = takeWhile isspace s @ ?t" by simp
  have 2: "rev ?t = takeWhile isspace (rev ?t) @ dropWhile isspace (rev ?t)" by simp
  then have "?t = rev (dropWhile isspace (rev ?t)) @ rev (takeWhile isspace (rev ?t))"
    by (metis rev_append rev_rev_ident)
  then have "s = takeWhile isspace s @ py_strip s @ rev (takeWhile isspace (rev ?t))"
    using 1 by (simp add: py_strip_def)
  moreover have "\<forall>c \<in> set (takeWhile isspace s). isspace c"
    by (auto dest: set_takeWhileD)
  moreover have "\<forall>c \<in> set (rev (takeWhile isspace (rev ?t))). isspace c"
    by (auto dest: set_takeWhileD)
  ultimately show ?thesis by blast
qed

lemma py_strip_ends:
  "py_strip s \<noteq> [] \<Longrightarrow> \<not> isspace (hd (py_strip s)) \<and> \<not> isspace (last (py_strip s))"
proof -
  assume ne: "py_strip s \<noteq> []"
  let ?t = "dropWhile isspace s"
  let ?u = "dropWhile isspace (rev ?t)"
  have u: "?u \<noteq> []" using ne by (simp add: py_strip_def)
  then have l: "\<not> isspace (hd ?u)" by (rule hd_dropWhile)
  have "last (py_strip s) = hd ?u" using u by (simp add: py_strip_def last_rev)
  then have A: "\<not> isspace (last (py_strip s))" using l by simp
  have t: "?t \<noteq> []"
  proof
    assume "?t = []"
    then have "?u = []" by (simp only: rev.simps dropWhile.simps)
    with u show False by contradiction
  qed
  then have ht: "\<not> isspace (hd ?t)" by (rule hd_dropWhile)
  have "\<not> isspace (last (rev ?t))" using t ht by (simp add: last_rev)
  have "hd (py_strip s) = last ?u" using u by (simp add: py_strip_def hd_rev)
  moreover have "last ?u = last (rev ?t)"
    using u by (metis (no_types) takeWhile_dropWhile_id last_appendR)
  ultimately have "hd (py_strip s) = hd ?t" using t by (simp add: last_rev)
  then show ?thesis using A ht by simp
qed

lemma py_strip_Nil: "py_strip [] = []"
  by (simp add: py_strip_def)


lemma dropWhile_all: "\<forall>c \<in> set xs. P c \<Longrightarrow> dropWhile P (xs @ ys) = dropWhile P ys"
  by (induction xs) auto

lemma dropWhile_hd: "t \<noteq> [] \<Longrightarrow> \<not> P (hd t) \<Longrightarrow> dropWhile P (t @ ys) = t @ ys"
  by (cases t) auto

lemma py_strip_unique:
  assumes pre: "\<forall>c \<in> set pre. isspace c" and post: "\<forall>c \<in> set post. isspace c"
    and t: "t \<noteq> [] \<longrightarrow> \<not> isspace (hd t) \<and> \<not> isspace (last t)"
  shows "py_strip (pre @ t @ post) = t"
proof (cases "t = []")
  case True
  have "dropWhile isspace (pre @ post) = []"
    using pre post by (auto simp: dropWhile_eq_Nil_conv)
  then show ?thesis
    unfolding py_strip_def True by (simp only: append_Nil rev.simps dropWhile.simps)
next
  case False
  have 1: "dropWhile isspace (pre @ t @ post) = t @ post"
    using pre t False by (simp add: dropWhile_all dropWhile_hd)
  have "rev t \<noteq> []" "\<not> isspace (hd (rev t))" using False t by (simp_all add: hd_rev)
  then have "dropWhile isspace (rev t @ []) = rev t @ []" by (rule dropWhile_hd)
  moreover have "dropWhile isspace (rev post @ rev t) = dropWhile isspace (rev t)"
    using post by (simp add: dropWhile_all)
  ultimately have "dropWhile isspace (rev (t @ post)) = rev t" by simp
  then show ?thesis using 1 by (simp add: py_strip_def)
qed

lemma prep_tags_tags:
  "tags (prep_tags opts) =
     set (map py_strip (py_split (CHR '','') (case tags opts of None \<Rightarrow> [] | Some s \<Rightarrow> s)))"
  by (simp add: prep_tags_def)

lemma Quote_run_shape:
  "Quote_run n ln c opts =
     [Target [''index-'' @ py_str n] [''epigraph''],
      Body (quote_node (Some ln)
        (prep_tags (opts\<lparr>date := map_option (\<lambda>d. ''['' @ d @ '']'') (date opts),
                         source := map_option (\<lambda>s. ''Source: '' @ s) (source opts)\<rparr>))
        [Element ''block_quote'' [''epigraph'']
           [Element ''paragraph'' [''text'']
              (if py_join [CHR 0x0A] c = [] then [] else [Text (py_join [CHR 0x0A] c)]),
            Element ''attribution'' []
              (Text ''--'' #
               siglb (opts\<lparr>date := map_option (\<lambda>d. ''['' @ d @ '']'') (date opts),
                         source := map_option (\<lambda>s. ''Source: '' @ s) (source opts)\<rparr>))]])]"
  by (simp add: Quote_run_def Let_def)

text \<open>
  C7. \<^verbatim>\<open>_prep_tags\<close> replaces \<^verbatim>\<open>tags\<close> by a set. With \<open>s\<close> the option's
  text (the empty string when the key is absent), \<open>t\<close> is in the set iff
  some component \<open>w\<close> of \<^verbatim>\<open>s.split(',')\<close> is \<open>t\<close> with whitespace around it,
  \<open>t\<close> itself neither beginning nor ending with whitespace; the components
  joined by commas give \<open>s\<close> back and contain no comma. The set is never
  empty, and it is the singleton of the empty string when the option is
  absent or empty. The other keys are kept, and the quote node that
  \<^verbatim>\<open>Quote.run\<close> returns carries this set.
\<close>

theorem prep_tags_normalises:
  "(\<forall>t. t \<in> tags (prep_tags opts) \<longleftrightarrow>
      (\<exists>w \<in> set (py_split (CHR '','') (case tags opts of None \<Rightarrow> [] | Some s \<Rightarrow> s)).
         \<exists>pre post. w = pre @ t @ post \<and>
           (\<forall>c \<in> set pre. isspace c) \<and> (\<forall>c \<in> set post. isspace c) \<and>
           (t \<noteq> [] \<longrightarrow> \<not> isspace (hd t) \<and> \<not> isspace (last t))))
   \<and> py_join '','' (py_split (CHR '','') (case tags opts of None \<Rightarrow> [] | Some s \<Rightarrow> s))
       = (case tags opts of None \<Rightarrow> [] | Some s \<Rightarrow> s)
   \<and> (\<forall>w \<in> set (py_split (CHR '','') (case tags opts of None \<Rightarrow> [] | Some s \<Rightarrow> s)).
         CHR '','' \<notin> set w)
   \<and> tags (prep_tags opts) \<noteq> {}
   \<and> (tags opts = None \<or> tags opts = Some [] \<longrightarrow> tags (prep_tags opts) = {[]})
   \<and> author (prep_tags opts) = author opts \<and> affiliation (prep_tags opts) = affiliation opts
   \<and> date (prep_tags opts) = date opts \<and> group (prep_tags opts) = group opts
   \<and> source (prep_tags opts) = source opts \<and> random (prep_tags opts) = random opts
   \<and> sections (prep_tags opts) = sections opts
   \<and> (\<exists>anchor q. Quote_run n ln c opts = [anchor, Body q] \<and>
         tags (options q) = tags (prep_tags opts))"
proof -
  let ?s = "case tags opts of None \<Rightarrow> [] | Some s \<Rightarrow> s"
  have A: "t \<in> tags (prep_tags opts) \<longleftrightarrow>
      (\<exists>w \<in> set (py_split (CHR '','') ?s).
         \<exists>pre post. w = pre @ t @ post \<and>
           (\<forall>c \<in> set pre. isspace c) \<and> (\<forall>c \<in> set post. isspace c) \<and>
           (t \<noteq> [] \<longrightarrow> \<not> isspace (hd t) \<and> \<not> isspace (last t)))" (is "?L \<longleftrightarrow> ?R") for t
  proof
    assume ?L
    then obtain w where w: "w \<in> set (py_split (CHR '','') ?s)" and t: "t = py_strip w"
      by (auto simp: prep_tags_tags)
    from py_strip_decomp [of w] obtain pre post where
      "w = pre @ t @ post" "\<forall>c \<in> set pre. isspace c" "\<forall>c \<in> set post. isspace c"
      unfolding t by blast
    moreover have "t \<noteq> [] \<longrightarrow> \<not> isspace (hd t) \<and> \<not> isspace (last t)"
      unfolding t using py_strip_ends [of w] by blast
    ultimately show ?R using w by blast
  next
    assume ?R
    then obtain w pre post where w: "w \<in> set (py_split (CHR '','') ?s)"
      and d: "w = pre @ t @ post" "\<forall>c \<in> set pre. isspace c" "\<forall>c \<in> set post. isspace c"
        "t \<noteq> [] \<longrightarrow> \<not> isspace (hd t) \<and> \<not> isspace (last t)"
      by blast
    have "py_strip w = t" unfolding d(1) using d(2-4) by (rule py_strip_unique)
    then show ?L using w by (auto simp: prep_tags_tags)
  qed
  have B: "py_join '','' (py_split (CHR '','') ?s) = ?s"
    using py_join_split [of "CHR '',''" ?s] by simp
  have C: "\<forall>w \<in> set (py_split (CHR '','') ?s). CHR '','' \<notin> set w"
    using py_split_no_sep by blast
  have D: "tags (prep_tags opts) \<noteq> {}"
    by (simp add: prep_tags_tags py_split_not_Nil)
  have E: "tags opts = None \<or> tags opts = Some [] \<longrightarrow> tags (prep_tags opts) = {[]}"
    by (auto simp: prep_tags_tags py_split_Nil py_strip_Nil)
  have F: "author (prep_tags opts) = author opts \<and> affiliation (prep_tags opts) = affiliation opts
   \<and> date (prep_tags opts) = date opts \<and> group (prep_tags opts) = group opts
   \<and> source (prep_tags opts) = source opts \<and> random (prep_tags opts) = random opts
   \<and> sections (prep_tags opts) = sections opts"
    by (simp add: prep_tags_def)
  have G: "\<exists>anchor q. Quote_run n ln c opts = [anchor, Body q] \<and>
         tags (options q) = tags (prep_tags opts)"
    by (simp add: Quote_run_shape prep_tags_tags)
  show ?thesis using A B C D E F G by blast
qed

theorem prep_tags_normalises_witness:
  "tags (prep_tags (no_options None)) = {[]} \<and>
   tags (prep_tags (no_options (Some '' a, b ,a''))) = {''a'', ''b''}"
  using prep_tags_normalises [of "no_options None" 0 0 "[]"]
  by (auto simp: no_options_def prep_tags_def py_split.simps py_strip_def isspace_def)

subsection \<open>The quote directive\<close>

lemma siglb_cases:
  "siglb opts =
     (case author opts of None \<Rightarrow> [] | Some a \<Rightarrow> [Element ''inline'' [''author''] [Text (''  '' @ a)]])
     @ (case date opts of None \<Rightarrow> [] | Some d \<Rightarrow> [Element ''inline'' [''date''] [Text (''  '' @ d)]])
     @ (case affiliation opts of None \<Rightarrow> []
        | Some a \<Rightarrow> [Element ''inline'' [''affiliation''] [Text (''  '' @ a)]])
     @ (case source opts of None \<Rightarrow> [] | Some s \<Rightarrow> [Element ''inline'' [''source''] [Text (''  '' @ s)]])"
  by (simp add: siglb_def split: option.splits)

text \<open>
  C8. The quote node that \<^verbatim>\<open>Quote.run\<close> returns holds one block quote, whose
  second child is the attribution: the text \<^verbatim>\<open>--\<close> and then one \<^verbatim>\<open>inline\<close>
  per option present, in the order author, date, affiliation, source. When a
  date \<open>d\<close> was supplied, the inline of class \<^verbatim>\<open>date\<close> has the text of two
  spaces and \<open>[d]\<close>; when a source \<open>s\<close> was supplied, the inline of class
  \<^verbatim>\<open>source\<close> has the text of two spaces and \<open>Source: s\<close>.
\<close>

theorem Quote_run_attribution:
  "\<exists>anchor opts' para kids.
     Quote_run n ln c opts =
       [anchor, Body (quote_node (Some ln) opts'
          [Element ''block_quote'' [''epigraph''] [para, Element ''attribution'' [] kids]])]
     \<and> kids = Text ''--'' #
          (case author opts of None \<Rightarrow> []
           | Some a \<Rightarrow> [Element ''inline'' [''author''] [Text (''  '' @ a)]])
          @ (case date opts of None \<Rightarrow> []
             | Some d \<Rightarrow> [Element ''inline'' [''date''] [Text (''  '' @ ''['' @ d @ '']'')]])
          @ (case affiliation opts of None \<Rightarrow> []
             | Some a \<Rightarrow> [Element ''inline'' [''affiliation''] [Text (''  '' @ a)]])
          @ (case source opts of None \<Rightarrow> []
             | Some s \<Rightarrow> [Element ''inline'' [''source''] [Text (''  '' @ ''Source: '' @ s)]])
     \<and> (\<forall>d. date opts = Some d \<longrightarrow>
           Element ''inline'' [''date''] [Text (''  '' @ ''['' @ d @ '']'')] \<in> set kids)
     \<and> (\<forall>s. source opts = Some s \<longrightarrow>
           Element ''inline'' [''source''] [Text (''  '' @ ''Source: '' @ s)] \<in> set kids)"
  by (auto simp: Quote_run_shape siglb_cases split: option.splits)

theorem Quote_run_attribution_witness:
  "Quote_run 0 7 [''text'']
     ((no_options None)\<lparr>date := Some ''1990-01-01'', source := Some ''mail''\<rparr>) ! 1 =
   Body (quote_node (Some 7)
     ((no_options {[]})\<lparr>date := Some ''[1990-01-01]'', source := Some ''Source: mail''\<rparr>)
     [Element ''block_quote'' [''epigraph'']
       [Element ''paragraph'' [''text''] [Text ''text''],
        Element ''attribution'' []
          [Text ''--'', Element ''inline'' [''date''] [Text ''  [1990-01-01]''],
           Element ''inline'' [''source''] [Text ''  Source: mail'']]]])"
  using Quote_run_attribution [of 0 7 "[''text'']"
     "(no_options None)\<lparr>date := Some ''1990-01-01'', source := Some ''mail''\<rparr>"]
  by (simp add: no_options_def prep_tags_def py_split_Nil py_strip_Nil Quote_run_shape
      siglb_def)

subsection \<open>Collection\<close>

text \<open>
  What \<^verbatim>\<open>process_quotes\<close> does: it appends one record per quote node of the
  document, in document order, behind the records already there. A quote node
  that is not the first child gets the child before it as anchor if that is a
  \<^verbatim>\<open>target\<close>, and none otherwise. For the first child the index
  \<^verbatim>\<open>node.parent.index(node) - 1\<close> is -1, which in Python is the last child:
  no IndexError is raised, and the anchor is the parent's last child if that
  is a \<^verbatim>\<open>target\<close>.
\<close>

lemma targetnode_preceded:
  assumes "0 < i" and "i < length parent"
  shows "targetnode parent i =
           (if is_target (parent ! (i - 1)) then Some (parent ! (i - 1)) else None)"
  using assms by (auto simp: targetnode_def py_getitem_def Let_def nat_diff_distrib)

lemma targetnode_first:
  assumes "parent \<noteq> []"
  shows "targetnode parent 0 =
           (if is_target (last parent) then Some (last parent) else None)"
proof -
  have "nat (int (length parent) - 1) = length parent - 1" by simp
  moreover have "1 \<le> int (length parent)" using assms by (cases parent) simp_all
  ultimately have "py_getitem parent (- 1) = Some (last parent)"
    using assms by (simp add: py_getitem_def last_conv_nth)
  then show ?thesis by (simp add: targetnode_def)
qed

lemma process_quotes_loop_quotes:
  "map quote (process_quotes_loop dn parent i ks) = traverse_quote_node ks"
  by (induction dn parent i ks rule: process_quotes_loop.induct) simp_all

lemma process_quotes_appends:
  "quote_all_quotes (process_quotes e (document ks)) =
     Some ((case quote_all_quotes e of None \<Rightarrow> [] | Some qs \<Rightarrow> qs)
           @ process_quotes_loop (env_docname e) ks 0 ks)"
  by (simp add: process_quotes_def)

text \<open>
  C10 claims that a quote node without preceding sibling is recorded with no
  anchor. The code at lines 134-139 means to (it catches IndexError), but for
  a quote node that is the first child of its parent while the last child is
  a \<^verbatim>\<open>target\<close>, the record gets that last child as its anchor.
\<close>

theorem process_quotes_first_child_takes_last_sibling:
  "process_quotes \<lparr>env_docname = ''index'', quote_all_quotes = None\<rparr>
     (document [Body (quote_node (Some 3) (no_options {[]}) []), Target [''other''] []])
   = \<lparr>env_docname = ''index'',
      quote_all_quotes = Some
        [\<lparr>docname = ''index'', lineno = Some 3,
           quote = quote_node (Some 3) (no_options {[]}) [],
           target = Some (Target [''other''] [])\<rparr>]\<rparr>"
  by (simp add: process_quotes_def targetnode_def py_getitem_def)

subsection \<open>Selection\<close>

text \<open>
  The loop of lines 207-215 ends in NameError as soon as the registry holds a
  record; with an empty registry it yields the empty list.
\<close>

lemma content_loop_cases:
  "content_loop fs qs = (if qs = [] then Inr [] else Inl NameError)"
  by (cases qs) (simp_all add: reduce_def)

lemma process_quote_node_NameError:
  "qs \<noteq> [] \<Longrightarrow> process_quote_node draws pos qs loptions = Inl NameError"
  by (simp add: process_quote_node_def content_loop_cases)

lemma process_quote_node_empty:
  "process_quote_node draws pos [] loptions =
     (if truthy_int (random loptions) then Inl ValueError
      else if truthy_str (sections loptions) then Inl NotImplementedError
      else Inr ([], pos))"
  by (auto simp: process_quote_node_def truthy_int_def sample_def split: option.splits)

lemma loop_fails:
  assumes "loptions \<in> set (traverse_quotes ks)"
    and "\<forall>d p. \<exists>err. process_quote_node d p qs loptions = Inl err"
  shows "\<exists>err. process_quote_nodes_loop draws qs pos ks = Inl err"
  using assms
proof (induction draws qs pos ks rule: process_quote_nodes_loop.induct)
  case (1 draws qs pos)
  then show ?case by simp
next
  case (2 draws qs pos lo rest)
  show ?case
  proof (cases "process_quote_node draws pos qs lo")
    case (Inl err)
    then show ?thesis by simp
  next
    case (Inr r)
    obtain content pos' where r: "r = (content, pos')" by (cases r)
    have "lo \<noteq> loptions"
    proof
      assume "lo = loptions"
      with "2.prems"(2) obtain err where "process_quote_node draws pos qs lo = Inl err"
        by blast
      with Inr show False by simp
    qed
    then have "loptions \<in> set (traverse_quotes rest)" using "2.prems"(1) by simp
    then have "\<exists>err. process_quote_nodes_loop draws qs pos' rest = Inl err"
      using "2.IH" [OF Inr [unfolded r] refl] "2.prems"(2) by blast
    then show ?thesis using Inr r by auto
  qed
next
  case (3 draws qs pos t cls ks rest)
  show ?case
  proof (cases "process_quote_nodes_loop draws qs pos ks")
    case (Inl err)
    then show ?thesis by simp
  next
    case (Inr r)
    obtain ks' pos' where r: "r = (ks', pos')" by (cases r)
    have "loptions \<notin> set (traverse_quotes ks)"
      using "3.IH"(1) "3.prems"(2) Inr by fastforce
    then have "loptions \<in> set (traverse_quotes rest)" using "3.prems"(1) by simp
    then have "\<exists>err. process_quote_nodes_loop draws qs pos' rest = Inl err"
      using "3.IH"(2) [OF Inr [unfolded r] refl] "3.prems"(2) by blast
    then show ?thesis using Inr r by auto
  qed
next
  case (4 draws qs pos l opts ks rest)
  show ?case
  proof (cases "process_quote_nodes_loop draws qs pos ks")
    case (Inl err)
    then show ?thesis by simp
  next
    case (Inr r)
    obtain ks' pos' where r: "r = (ks', pos')" by (cases r)
    have "loptions \<notin> set (traverse_quotes ks)"
      using "4.IH"(1) "4.prems"(2) Inr by fastforce
    then have "loptions \<in> set (traverse_quotes rest)" using "4.prems"(1) by simp
    then have "\<exists>err. process_quote_nodes_loop draws qs pos' rest = Inl err"
      using "4.IH"(2) [OF Inr [unfolded r] refl] "4.prems"(2) by blast
    then show ?thesis using Inr r by auto
  qed
qed (auto split: sum.splits)

lemma process_quote_nodes_NameError:
  assumes "quote_all_quotes e = Some qs" and "qs \<noteq> []"
  shows "snd (process_quote_nodes draws pos e (document (quotes loptions # rest))) = Inl NameError"
  using assms by (simp add: process_quote_nodes_def process_quote_node_NameError)

text \<open>
  C3 says that the selector's content is the list of the registry's quotes
  that pass every predicate, in registry order, and that three quotes with
  tags \<^verbatim>\<open>a,b\<close>, \<^verbatim>\<open>b\<close> and \<^verbatim>\<open>a,b,c\<close> and a selector with tags \<^verbatim>\<open>a,b\<close>
  give the first and the third. The code means to (it folds
  \<^verbatim>\<open>operator.__and__\<close> over the predicates), but \<^verbatim>\<open>reduce\<close> is not defined:
  on this very example, three \<^verbatim>\<open>quote\<close> directives collected by
  \<^verbatim>\<open>process_quotes\<close> and one \<^verbatim>\<open>quotes\<close> directive, the callback raises
  NameError and selects nothing.
\<close>

theorem three_quotes_selection_raises_NameError:
  "snd (process_quote_nodes id 0
      (process_quotes \<lparr>env_docname = ''index'', quote_all_quotes = None\<rparr>
         (document (Quote_run 0 1 [''one''] (no_options (Some ''a,b'')) @
                    Quote_run 1 5 [''two''] (no_options (Some ''b'')) @
                    Quote_run 2 9 [''three''] (no_options (Some ''a,b,c'')))))
      (document (Quotes_run (no_options (Some ''a,b'')))))
   = Inl NameError"
  by (simp add: Quote_run_shape process_quotes_def Quotes_run_def process_quote_nodes_def
      process_quote_node_NameError)

subsection \<open>Sampling\<close>

text \<open>
  The sampling step on its own, for a population that takes the pool branch:
  whatever is drawn, \<^verbatim>\<open>sample\<close> returns the population's elements at \<open>k\<close>
  pairwise different positions, and all of them in some order for \<open>k = n\<close>.
\<close>

lemma length_sample_loop: "length (sample_loop draws pos pool m r) = r"
  by (induction r arbitrary: pos pool m) (simp_all add: Let_def)

lemma sample_loop_map:
  "r \<le> m \<Longrightarrow> m \<le> length pool \<Longrightarrow>
   sample_loop draws pos (map f pool) m r = map f (sample_loop draws pos pool m r)"
proof (induction r arbitrary: pos pool m)
  case 0
  then show ?case by simp
next
  case (Suc r)
  let ?j = "draws pos mod m"
  have m: "0 < m" using Suc.prems by simp
  then have j: "?j < length pool" using Suc.prems(2) mod_less_divisor [of m "draws pos"] by linarith
  have m1: "m - 1 < length pool" using m Suc.prems(2) by simp
  have "(map f pool)[?j := map f pool ! (m - 1)] = map f (pool[?j := pool ! (m - 1)])"
    using m1 by (simp add: map_update)
  moreover have "sample_loop draws (Suc pos) (map f (pool[?j := pool ! (m - 1)])) (m - 1) r =
      map f (sample_loop draws (Suc pos) (pool[?j := pool ! (m - 1)]) (m - 1) r)"
    using Suc.prems by (intro Suc.IH) simp_all
  ultimately show ?case using j by (simp add: Let_def)
qed

lemma mset_take_swap:
  assumes "j < m" and "m \<le> length pool"
  shows "add_mset (pool ! j) (mset (take (m - 1) (pool[j := pool ! (m - 1)]))) = mset (take m pool)"
proof -
  have tm: "take m pool = take (m - 1) pool @ [pool ! (m - 1)]"
    using assms take_Suc_conv_app_nth [of "m - 1" pool] by simp
  show ?thesis
  proof (cases "j = m - 1")
    case True
    then show ?thesis using tm by simp
  next
    case False
    then have j: "j < m - 1" using assms by simp
    then have jl: "j < length (take (m - 1) pool)" using assms by simp
    have "take (m - 1) (pool[j := pool ! (m - 1)]) = (take (m - 1) pool)[j := pool ! (m - 1)]"
      using j by (simp add: take_update_swap)
    then have "mset (take (m - 1) (pool[j := pool ! (m - 1)])) =
        add_mset (pool ! (m - 1)) (mset (take (m - 1) pool) - {#take (m - 1) pool ! j#})"
      using jl by (simp add: mset_update)
    moreover have "take (m - 1) pool ! j = pool ! j" using j by simp
    moreover have "pool ! j \<in># mset (take (m - 1) pool)"
      using jl j by (metis in_multiset_in_set nth_mem nth_take)
    ultimately show ?thesis using tm by simp
  qed
qed

lemma mset_sample_loop:
  "r \<le> m \<Longrightarrow> m \<le> length pool \<Longrightarrow>
   mset (sample_loop draws pos pool m r) \<subseteq># mset (take m pool)"
proof (induction r arbitrary: pos pool m)
  case 0
  then show ?case by simp
next
  case (Suc r)
  let ?j = "draws pos mod m"
  let ?pool = "pool[?j := pool ! (m - 1)]"
  have m: "0 < m" using Suc.prems by simp
  then have j: "?j < m" by simp
  have IH: "mset (sample_loop draws (Suc pos) ?pool (m - 1) r) \<subseteq># mset (take (m - 1) ?pool)"
    using Suc.prems by (intro Suc.IH) simp_all
  have "mset (sample_loop draws pos pool m (Suc r)) =
      add_mset (pool ! ?j) (mset (sample_loop draws (Suc pos) ?pool (m - 1) r))"
    by (simp add: Let_def)
  also have "\<dots> \<subseteq># add_mset (pool ! ?j) (mset (take (m - 1) ?pool))"
    using IH by simp
  also have "\<dots> = mset (take m pool)"
    by (rule mset_take_swap [OF j Suc.prems(2)])
  finally show ?case .
qed

lemma distinct_mset_subseteq:
  assumes "mset ys \<subseteq># mset xs" and "distinct xs"
  shows "distinct ys"
proof -
  have "count (mset ys) a = (if a \<in> set ys then 1 else 0)" for a
  proof (cases "a \<in> set ys")
    case True
    then have "0 < count (mset ys) a" by simp
    moreover have "count (mset ys) a \<le> count (mset xs) a"
      using assms(1) by (rule mset_subset_eq_count)
    moreover have "count (mset xs) a \<le> 1"
      using assms(2) by (simp add: distinct_count_atmost_1)
    ultimately have "count (mset ys) a = 1" by linarith
    then show ?thesis using True by simp
  next
    case False
    then show ?thesis by simp
  qed
  then show ?thesis by (simp add: distinct_count_atmost_1)
qed


lemma sample_loop_indices:
  assumes "r \<le> length xs"
  shows "sample_loop draws pos xs (length xs) r =
           map (\<lambda>i. xs ! i) (sample_loop draws pos [0..<length xs] (length xs) r)"
    and "distinct (sample_loop draws pos [0..<length xs] (length xs) r)"
    and "\<forall>i \<in> set (sample_loop draws pos [0..<length xs] (length xs) r). i < length xs"
proof -
  let ?is = "sample_loop draws pos [0..<length xs] (length xs) r"
  have "sample_loop draws pos (map (\<lambda>i. xs ! i) [0..<length xs]) (length xs) r =
          map (\<lambda>i. xs ! i) ?is"
    using assms by (intro sample_loop_map) simp_all
  then show "sample_loop draws pos xs (length xs) r = map (\<lambda>i. xs ! i) ?is"
    by (simp add: map_nth)
  have sub: "mset ?is \<subseteq># mset [0..<length xs]"
    using mset_sample_loop [of r "length xs" "[0..<length xs]" draws pos] assms by simp
  then show "distinct ?is" by (rule distinct_mset_subseteq) simp
  have "set ?is \<subseteq> set [0..<length xs]"
    using set_mset_mono [OF sub] by simp
  then show "\<forall>i \<in> set ?is. i < length xs" by auto
qed

lemma sample_within_population:
  assumes "0 \<le> k" and "k \<le> int (length xs)"
  shows "\<exists>is. sample draws pos xs k = Inr (map (\<lambda>i. xs ! i) is, pos + nat k) \<and>
           distinct is \<and> length is = nat k \<and> (\<forall>i \<in> set is. i < length xs) \<and>
           mset (map (\<lambda>i. xs ! i) is) \<subseteq># mset xs \<and>
           (distinct xs \<longrightarrow> distinct (map (\<lambda>i. xs ! i) is)) \<and>
           (k = int (length xs) \<longrightarrow> mset (map (\<lambda>i. xs ! i) is) = mset xs)"
proof -
  define r where "r = nat k"
  define "is" where "is = sample_loop draws pos [0..<length xs] (length xs) r"
  define zs where "zs = map (\<lambda>i. xs ! i) is"
  have r: "r \<le> length xs" using assms by (simp add: r_def)
  note ind = sample_loop_indices [OF r, of draws pos]
  have eq: "sample_loop draws pos xs (length xs) r = zs"
    unfolding zs_def is_def by (rule ind(1))
  have s: "sample draws pos xs k = Inr (zs, pos + nat k)"
    using assms eq by (simp add: sample_def r_def)
  have len: "length is = nat k"
    by (simp add: is_def r_def length_sample_loop)
  have sub: "mset zs \<subseteq># mset xs"
    using mset_sample_loop [of r "length xs" xs draws pos] r eq by simp
  have d: "distinct xs \<longrightarrow> distinct zs"
    using sub by (auto intro: distinct_mset_subseteq)
  have all: "k = int (length xs) \<longrightarrow> mset zs = mset xs"
  proof
    assume k: "k = int (length xs)"
    have "length zs = length xs" using k len by (simp add: zs_def)
    moreover have "size (mset xs - mset zs) = size (mset xs) - size (mset zs)"
      using sub by (rule size_Diff_submset)
    ultimately have "mset xs - mset zs = {#}" by simp
    moreover have "mset zs + (mset xs - mset zs) = mset xs"
      using sub by (rule subset_mset.add_diff_inverse)
    ultimately show "mset zs = mset xs" by simp
  qed
  have "sample draws pos xs k = Inr (map (\<lambda>i. xs ! i) is, pos + nat k) \<and>
           distinct is \<and> length is = nat k \<and> (\<forall>i \<in> set is. i < length xs) \<and>
           mset (map (\<lambda>i. xs ! i) is) \<subseteq># mset xs \<and>
           (distinct xs \<longrightarrow> distinct (map (\<lambda>i. xs ! i) is)) \<and>
           (k = int (length xs) \<longrightarrow> mset (map (\<lambda>i. xs ! i) is) = mset xs)"
    using s len sub d all ind(2,3) unfolding zs_def [symmetric] is_def [symmetric] by blast
  then show ?thesis ..
qed

text \<open>
  C5 says that a selector asking for \<open>k\<close> random samples, \<open>k\<close> at most the
  number of filtered quotes, gets \<open>k\<close> of them without repetition. Line 223
  would do so, but it is not reached: \<open>k\<close> is positive, so there is a
  filtered quote and hence a registry record, and line 209 raises NameError.
  Here for a registry of two quotes and a selector asking for two.
\<close>

theorem sample_two_of_two_raises_NameError:
  "snd (process_quote_nodes id 0
      \<lparr>env_docname = ''index'', quote_all_quotes = Some
         [\<lparr>docname = ''index'', lineno = Some 1,
            quote = quote_node (Some 1) (no_options {''a''}) [], target = None\<rparr>,
          \<lparr>docname = ''index'', lineno = Some 5,
            quote = quote_node (Some 5) (no_options {''b''}) [], target = None\<rparr>]\<rparr>
      (document [quotes ((no_options None)\<lparr>random := Some 2\<rparr>)]))
   = Inl NameError"
  by (simp add: process_quote_nodes_def process_quote_node_NameError)

subsection \<open>Failures of the resolution callback\<close>

text \<open>
  C6. A selector asks for more random samples than registry quotes pass its
  predicates. Then the loop body raises an exception: ValueError from
  \<^verbatim>\<open>sample\<close> (line 223) when the registry is empty, and NameError from line
  209 otherwise. Nothing catches it, so the callback on a document that is
  this selector raises it, and the callback on any document that contains the
  selector ends in an exception.
\<close>

theorem sample_larger_than_population:
  assumes "random loptions = Some k"
    and "int (length (filter (\<lambda>quote_info. \<forall>f \<in> set (filters loptions). f (quote quote_info)) qs)) < k"
  shows "process_quote_node draws pos qs loptions =
           Inl (if qs = [] then ValueError else NameError) \<and>
         snd (process_quote_nodes draws pos \<lparr>env_docname = dn, quote_all_quotes = Some qs\<rparr>
                (document [quotes loptions])) = Inl (if qs = [] then ValueError else NameError) \<and>
         (loptions \<in> set (traverse_quotes ks) \<longrightarrow>
            (\<exists>err. snd (process_quote_nodes draws pos
                          \<lparr>env_docname = dn, quote_all_quotes = Some qs\<rparr> (document ks)) = Inl err))"
proof -
  have body: "process_quote_node d p qs loptions = Inl (if qs = [] then ValueError else NameError)"
    for d p
  proof (cases "qs = []")
    case True
    then have "0 < k" using assms(2) by simp
    then show ?thesis
      using True assms(1) by (simp add: process_quote_node_empty truthy_int_def)
  next
    case False
    then show ?thesis by (simp add: process_quote_node_NameError)
  qed
  have one: "snd (process_quote_nodes draws pos \<lparr>env_docname = dn, quote_all_quotes = Some qs\<rparr>
                (document [quotes loptions])) = Inl (if qs = [] then ValueError else NameError)"
    by (simp add: process_quote_nodes_def body)
  have tree: "\<exists>err. snd (process_quote_nodes draws pos
                          \<lparr>env_docname = dn, quote_all_quotes = Some qs\<rparr> (document ks)) = Inl err"
    if "loptions \<in> set (traverse_quotes ks)"
  proof -
    from that body obtain err where "process_quote_nodes_loop draws qs pos ks = Inl err"
      using loop_fails [of loptions ks qs draws pos] by auto
    then show ?thesis by (simp add: process_quote_nodes_def)
  qed
  show ?thesis using body one tree by blast
qed

theorem sample_larger_than_population_witness:
  "process_quote_node id 0 [] ((no_options None)\<lparr>random := Some 1\<rparr>) = Inl ValueError \<and>
   snd (process_quote_nodes id 0 \<lparr>env_docname = ''d'', quote_all_quotes = Some []\<rparr>
          (document [quotes ((no_options None)\<lparr>random := Some 1\<rparr>)])) = Inl ValueError"
  using sample_larger_than_population [of "(no_options None)\<lparr>random := Some 1\<rparr>" 1
     "[]" id 0 "''d''" "[]"]
  by (simp add: no_options_def)

text \<open>
  A selector that the \<^verbatim>\<open>quotes\<close> directive builds never carries
  \<^verbatim>\<open>sections\<close>: the option is not in the directive's \<^verbatim>\<open>option_spec\<close>. What
  follows about \<^verbatim>\<open>sections\<close> is about selectors built in another way.
\<close>

lemma Quotes_run_no_sections:
  assumes "Quotes_option_spec opts"
  shows "\<exists>loptions. Quotes_run opts = [quotes loptions] \<and> sections loptions = None"
  using assms by (simp add: Quotes_run_def Quotes_option_spec_def)




end
